theory Spec2Isabelle
  imports Complex_Main
begin

section \<open>JavaScript numbers\<close>

text \<open>
  The visualizer of \<^verbatim>\<open>frontend/js/app.js\<close> computes with JavaScript numbers.
  They are modelled with their three special values kept apart from the finite ones.
  Finite arithmetic is exact: the rounding of doubles and the narrowing of a
  \<^verbatim>\<open>Float32Array\<close> store are not modelled, and neither is overflow: the sum, difference
  or product of two finite numbers is finite here, where a double whose exact result
  exceeds \<^verbatim>\<open>Number.MAX_VALUE\<close> becomes an infinity. A statement that depends on it bounds
  its operands by \<open>Number_MAX_VALUE\<close>. The two zeros are identified; every
  divisor of the program that can be zero is \<^verbatim>\<open>+0\<close> (\<^verbatim>\<open>max - min\<close> is tested against
  zero before it divides, \<^verbatim>\<open>length - 1\<close> is \<^verbatim>\<open>1 - 1\<close>, and the distance of two
  colour stops is a positive constant).
\<close>

datatype jsnum = NaN | NInf | Fin real | PInf

text \<open>\<^verbatim>\<open>Number.MAX_VALUE\<close>, the largest finite double.\<close>

definition Number_MAX_VALUE :: real where
  "Number_MAX_VALUE = (2 - 1 / 2 ^ 52) * 2 ^ 1023"

fun signed_inf :: "real \<Rightarrow> jsnum" where
  "signed_inf a = (if 0 < a then PInf else if a < 0 then NInf else NaN)"

fun js_neg :: "jsnum \<Rightarrow> jsnum" where
  "js_neg NaN = NaN"
| "js_neg NInf = PInf"
| "js_neg PInf = NInf"
| "js_neg (Fin a) = Fin (- a)"

fun js_add :: "jsnum \<Rightarrow> jsnum \<Rightarrow> jsnum" where
  "js_add (Fin a) (Fin b) = Fin (a + b)"
| "js_add NaN _ = NaN"
| "js_add _ NaN = NaN"
| "js_add PInf NInf = NaN"
| "js_add NInf PInf = NaN"
| "js_add PInf _ = PInf"
| "js_add _ PInf = PInf"
| "js_add NInf _ = NInf"
| "js_add _ NInf = NInf"

definition js_sub :: "jsnum \<Rightarrow> jsnum \<Rightarrow> jsnum" where
  "js_sub a b = js_add a (js_neg b)"

fun js_mul :: "jsnum \<Rightarrow> jsnum \<Rightarrow> jsnum" where
  "js_mul (Fin a) (Fin b) = Fin (a * b)"
| "js_mul NaN _ = NaN"
| "js_mul _ NaN = NaN"
| "js_mul PInf (Fin b) = signed_inf b"
| "js_mul (Fin a) PInf = signed_inf a"
| "js_mul NInf (Fin b) = signed_inf (- b)"
| "js_mul (Fin a) NInf = signed_inf (- a)"
| "js_mul PInf PInf = PInf"
| "js_mul NInf NInf = PInf"
| "js_mul PInf NInf = NInf"
| "js_mul NInf PInf = NInf"

fun js_div :: "jsnum \<Rightarrow> jsnum \<Rightarrow> jsnum" where
  "js_div (Fin a) (Fin b) = (if b = 0 then signed_inf a else Fin (a / b))"
| "js_div NaN _ = NaN"
| "js_div _ NaN = NaN"
| "js_div (Fin a) PInf = Fin 0"
| "js_div (Fin a) NInf = Fin 0"
| "js_div PInf (Fin b) = (if 0 \<le> b then PInf else NInf)"
| "js_div NInf (Fin b) = (if 0 \<le> b then NInf else PInf)"
| "js_div PInf PInf = NaN"
| "js_div PInf NInf = NaN"
| "js_div NInf PInf = NaN"
| "js_div NInf NInf = NaN"

text \<open>\<^verbatim>\<open>a <= b\<close> and \<^verbatim>\<open>a < b\<close>: false as soon as one side is \<^verbatim>\<open>NaN\<close>.\<close>

fun js_le :: "jsnum \<Rightarrow> jsnum \<Rightarrow> bool" where
  "js_le (Fin a) (Fin b) = (a \<le> b)"
| "js_le NaN _ = False"
| "js_le _ NaN = False"
| "js_le NInf _ = True"
| "js_le _ PInf = True"
| "js_le PInf _ = False"
| "js_le _ NInf = False"


text \<open>\<^verbatim>\<open>a === b\<close> on numbers: \<^verbatim>\<open>NaN\<close> equals nothing.\<close>

fun js_seq :: "jsnum \<Rightarrow> jsnum \<Rightarrow> bool" where
  "js_seq NaN _ = False"
| "js_seq _ NaN = False"
| "js_seq a b = (a = b)"

text \<open>
  \<^verbatim>\<open>Math.min\<close> and \<^verbatim>\<open>Math.max\<close>: \<^verbatim>\<open>NaN\<close> as soon as one argument is \<^verbatim>\<open>NaN\<close>; with no
  argument at all, \<^verbatim>\<open>Infinity\<close> and \<^verbatim>\<open>-Infinity\<close>.
\<close>

fun Math_min2 :: "jsnum \<Rightarrow> jsnum \<Rightarrow> jsnum" where
  "Math_min2 NaN _ = NaN"
| "Math_min2 _ NaN = NaN"
| "Math_min2 a b = (if js_le a b then a else b)"

fun Math_max2 :: "jsnum \<Rightarrow> jsnum \<Rightarrow> jsnum" where
  "Math_max2 NaN _ = NaN"
| "Math_max2 _ NaN = NaN"
| "Math_max2 a b = (if js_le a b then b else a)"

definition Math_min :: "jsnum list \<Rightarrow> jsnum" where
  "Math_min args = fold Math_min2 args PInf"

definition Math_max :: "jsnum list \<Rightarrow> jsnum" where
  "Math_max args = fold Math_max2 args NInf"


section \<open>Colours\<close>

text \<open>
  \<^verbatim>\<open>THREE.Color\<close> belongs to the three.js library. A colour is kept as the call that built
  it: \<^verbatim>\<open>new THREE.Color(hex)\<close> or \<^verbatim>\<open>new THREE.Color().setHSL(h, s, l)\<close>. The components
  that \<^verbatim>\<open>getHSL\<close> reads from a colour built from a hex code are finite numbers; the
  function is a parameter \<open>getHSL\<close> of everything that calls it.
\<close>

datatype color = Color_hex nat | Color_setHSL jsnum jsnum jsnum

record hsl =
  hsl_h :: real
  hsl_s :: real
  hsl_l :: real

text \<open>\<^verbatim>\<open>this.config\<close> of the constructor (the unused \<^verbatim>\<open>lineWidth\<close> is left out).\<close>

definition maxLines :: nat where
  "maxLines = 5000"

definition zScale :: real where
  "zScale = 2"

definition spacing :: real where
  "spacing = 1"

definition config_colors :: "(real \<times> nat) list" where
  "config_colors =
     [(0, 0x0000ff), (1/4, 0x00ffff), (1/2, 0x00ff00), (3/4, 0xffff00), (1, 0xff0000)]"


section \<open>\<^verbatim>\<open>normalizeData\<close> and \<^verbatim>\<open>getColor\<close>\<close>

definition normalizeData :: "jsnum list \<Rightarrow> jsnum list" where
  "normalizeData data =
     (let mn = Math_min data;
          mx = Math_max data;
          range = js_sub mx mn
      in if js_seq range (Fin 0) then map (\<lambda>_. Fin (1/2)) data
         else map (\<lambda>v. js_div (js_sub v mn) range) data)"

text \<open>
  The body of the \<^verbatim>\<open>if\<close> inside the loop of \<^verbatim>\<open>getColor\<close>; \<open>stop_fraction\<close> is its
  \<^verbatim>\<open>t\<close>.
\<close>

definition stop_fraction :: "jsnum \<Rightarrow> real \<times> nat \<Rightarrow> real \<times> nat \<Rightarrow> jsnum" where
  "stop_fraction v prev next =
     js_div (js_sub v (Fin (fst prev))) (js_sub (Fin (fst next)) (Fin (fst prev)))"

definition interpolate ::
  "(nat \<Rightarrow> hsl) \<Rightarrow> jsnum \<Rightarrow> real \<times> nat \<Rightarrow> real \<times> nat \<Rightarrow> color" where
  "interpolate getHSL v prev next =
     (let t = stop_fraction v prev next;
          c1 = getHSL (snd prev);
          c2 = getHSL (snd next);
          hue = js_add (Fin (hsl_h c1)) (js_mul t (js_sub (Fin (hsl_h c2)) (Fin (hsl_h c1))));
          sat = js_add (Fin (hsl_s c1)) (js_mul t (js_sub (Fin (hsl_s c2)) (Fin (hsl_s c1))));
          lightness =
            js_add (Fin (hsl_l c1)) (js_mul t (js_sub (Fin (hsl_l c2)) (Fin (hsl_l c1))))
      in Color_setHSL hue (js_mul sat (Fin (3/2))) lightness)"

text \<open>
  The loop \<^verbatim>\<open>for (let i = 1; i < colors.length; i++)\<close>, on the stops from index
  \<open>i - 1\<close> on: the colour of the first stop \<open>i\<close> with \<^verbatim>\<open>value <= colors[i][0]\<close>, or
  \<open>None\<close> when the loop runs to its end.
\<close>

fun stop_search :: "(nat \<Rightarrow> hsl) \<Rightarrow> jsnum \<Rightarrow> (real \<times> nat) list \<Rightarrow> color option" where
  "stop_search getHSL v (prev # next # stops) =
     (if js_le v (Fin (fst next)) then Some (interpolate getHSL v prev next)
      else stop_search getHSL v (next # stops))"
| "stop_search getHSL v stops = None"

definition clamp01 :: "jsnum \<Rightarrow> jsnum" where
  "clamp01 v = Math_min2 (Math_max2 v (Fin 0)) (Fin 1)"

definition getColor :: "(nat \<Rightarrow> hsl) \<Rightarrow> jsnum \<Rightarrow> color" where
  "getColor getHSL v0 =
     (let v = clamp01 v0
      in case stop_search getHSL v config_colors of
           Some c \<Rightarrow> c
         | None \<Rightarrow> Color_hex (snd (last config_colors)))"


section \<open>Frames, geometry and the state of the visualizer\<close>

text \<open>
  A frame as the program reads it: a field is \<open>None\<close> when the property is missing
  (or holds another falsy value), and an array of numbers otherwise.
\<close>

record frame =
  freqs :: "jsnum list option"
  power :: "jsnum list option"
  waterfall :: "jsnum list option"

datatype js_error = TypeError | SyntaxError | Error string

text \<open>
  The two attributes of the \<^verbatim>\<open>BufferGeometry\<close>, item size 3: the flat array
  \<^verbatim>\<open>positions\<close> as its \<open>(x, y, z)\<close> triples, and \<^verbatim>\<open>colors\<close> as the colour whose
  \<^verbatim>\<open>r\<close>, \<^verbatim>\<open>g\<close>, \<^verbatim>\<open>b\<close> fill the three slots of a vertex.
\<close>

record geometry =
  position_attr :: "(jsnum \<times> jsnum \<times> jsnum) list"
  color_attr :: "color list"

text \<open>
  Every \<^verbatim>\<open>THREE.Line\<close> is an object that \<^verbatim>\<open>this.lines\<close>, the array a \<^verbatim>\<open>forEach\<close> runs
  over and the children of the scene all refer to. A line is the number of its allocation,
  and its two fields live in one store each: \<open>line_geometry\<close> and \<open>position_y\<close>.
  The size of the container is what \<^verbatim>\<open>clientWidth\<close> and \<^verbatim>\<open>clientHeight\<close> read from the
  page, non-negative integers.
\<close>

datatype object3d = AmbientLight | Line nat

record waterfall_visualizer =
  clientWidth :: nat
  clientHeight :: nat
  renderer_size :: "nat \<times> nat"
  camera_right :: nat
  camera_top :: nat
  scene :: "object3d list"
  lines :: "nat list"
  next_line :: nat
  line_geometry :: "nat \<Rightarrow> geometry"
  position_y :: "nat \<Rightarrow> real"

text \<open>The constructor, with \<^verbatim>\<open>initThree\<close> and \<^verbatim>\<open>setupScene\<close>, on a container of the given size.\<close>

definition new_WaterfallVisualizer :: "nat \<Rightarrow> nat \<Rightarrow> waterfall_visualizer" where
  "new_WaterfallVisualizer width height =
     \<lparr> clientWidth = width, clientHeight = height,
       renderer_size = (width, height),
       camera_right = width, camera_top = height,
       scene = [AmbientLight],
       lines = [],
       next_line = 0,
       line_geometry = (\<lambda>_. \<lparr>position_attr = [], color_attr = []\<rparr>),
       position_y = (\<lambda>_. 0) \<rparr>"

definition onResize :: "waterfall_visualizer \<Rightarrow> waterfall_visualizer" where
  "onResize v =
     v\<lparr> renderer_size := (clientWidth v, clientHeight v),
        camera_right := clientWidth v,
        camera_top := clientHeight v \<rparr>"

text \<open>The page gives the container a new size and the \<^verbatim>\<open>ResizeObserver\<close> calls \<^verbatim>\<open>onResize\<close>.\<close>

definition container_resized :: "nat \<Rightarrow> nat \<Rightarrow> waterfall_visualizer \<Rightarrow> waterfall_visualizer" where
  "container_resized width height v = onResize (v\<lparr>clientWidth := width, clientHeight := height\<rparr>)"

text \<open>
  \<^verbatim>\<open>createGeometry\<close>. Spreading a missing \<^verbatim>\<open>data.waterfall\<close> into \<^verbatim>\<open>Math.min\<close> throws a
  \<^verbatim>\<open>TypeError\<close>; nothing else in it throws.
\<close>

definition createGeometry ::
  "(nat \<Rightarrow> hsl) \<Rightarrow> frame \<Rightarrow> waterfall_visualizer \<Rightarrow> js_error + geometry" where
  "createGeometry getHSL data v =
     (case waterfall data of
        None \<Rightarrow> Inl TypeError
      | Some samples \<Rightarrow>
          (let spectrum = normalizeData samples;
               containerWidth = clientWidth v;
               xScale = js_div (Fin (real containerWidth)) (Fin (real (length spectrum) - 1))
           in Inr \<lparr> position_attr =
                      map (\<lambda>i. (js_mul (Fin (real i)) xScale, Fin 0,
                                 js_mul (spectrum ! i) (Fin zScale)))
                        [0 ..< length spectrum],
                    color_attr =
                      map (\<lambda>i. getColor getHSL (spectrum ! i)) [0 ..< length spectrum] \<rparr>))"

text \<open>
  The callback of \<^verbatim>\<open>this.lines.forEach\<close>. \<^verbatim>\<open>scene.remove\<close> takes the object out of the
  children, and \<^verbatim>\<open>filter\<close> builds a new array for \<^verbatim>\<open>this.lines\<close>: the array that
  \<^verbatim>\<open>forEach\<close> walks is the one \<^verbatim>\<open>this.lines\<close> held when the loop began, and it is never
  written to.
\<close>

definition move_down :: "nat \<Rightarrow> waterfall_visualizer \<Rightarrow> waterfall_visualizer" where
  "move_down line v =
     (let v1 = v\<lparr>position_y := (position_y v)(line := position_y v line - spacing)\<rparr>
      in if position_y v1 line < - spacing
         then v1\<lparr> scene := remove1 (Line line) (scene v1),
                  lines := filter (\<lambda>l. l \<noteq> line) (lines v1) \<rparr>
         else v1)"

text \<open>\<^verbatim>\<open>this.scene.remove(this.lines.pop())\<close>, called on more than \<open>maxLines\<close> lines.\<close>

definition pop_oldest :: "waterfall_visualizer \<Rightarrow> waterfall_visualizer" where
  "pop_oldest v =
     v\<lparr> lines := butlast (lines v),
        scene := remove1 (Line (last (lines v))) (scene v) \<rparr>"

definition addData ::
  "(nat \<Rightarrow> hsl) \<Rightarrow> frame \<Rightarrow> waterfall_visualizer \<Rightarrow> js_error + waterfall_visualizer" where
  "addData getHSL data v =
     (case createGeometry getHSL data v of
        Inl e \<Rightarrow> Inl e
      | Inr geom \<Rightarrow>
          (let line = next_line v;
               v1 = v\<lparr> next_line := Suc line,
                        line_geometry := (line_geometry v)(line := geom),
                        position_y := (position_y v)(line := real (clientHeight v)) \<rparr>;
               v2 = v1\<lparr>lines := line # lines v1\<rparr>;
               v3 = v2\<lparr>scene := scene v2 @ [Line line]\<rparr>;
               v4 = (if maxLines < length (lines v3) then pop_oldest v3 else v3)
           in Inr (fold move_down (lines v4) v4)))"

text \<open>A run of the visualizer: frames added and container resizes, in their order.\<close>

datatype call = AddData frame | ContainerResized nat nat

fun run ::
  "(nat \<Rightarrow> hsl) \<Rightarrow> call list \<Rightarrow> waterfall_visualizer \<Rightarrow> js_error + waterfall_visualizer" where
  "run getHSL [] v = Inr v"
| "run getHSL (AddData data # calls) v =
     (case addData getHSL data v of
        Inl e \<Rightarrow> Inl e
      | Inr v' \<Rightarrow> run getHSL calls v')"
| "run getHSL (ContainerResized width height # calls) v =
     run getHSL calls (container_resized width height v)"


section \<open>The \<^verbatim>\<open>spectrum_data\<close> handler\<close>

text \<open>
  What a \<^verbatim>\<open>spectrum_data\<close> event carries: a string, or a value. A value is \<^verbatim>\<open>null\<close> or
  \<^verbatim>\<open>undefined\<close>, on which reading a property throws, or it is read through its three
  properties. \<^verbatim>\<open>JSON.parse\<close> is a parameter: \<open>None\<close> where it throws a \<^verbatim>\<open>SyntaxError\<close>.
\<close>

datatype jsvalue = Nullish | Object frame

datatype payload = Text string | Value jsvalue

datatype log_entry = Console_error string js_error | Console_log string payload

record chart =
  chart_labels :: "jsnum list"
  chart_data :: "jsnum list"

record app =
  visualizer :: waterfall_visualizer
  lineChart :: chart
  isStreaming :: bool
  console :: "log_entry list"

definition updateLineChart :: "frame \<Rightarrow> app \<Rightarrow> app" where
  "updateLineChart data a =
     (case (freqs data, power data) of
        (Some fs, Some ps) \<Rightarrow>
          a\<lparr>lineChart := \<lparr> chart_labels = map (\<lambda>f. js_div f (Fin 1000000)) fs,
                            chart_data = ps \<rparr>\<rparr>
      | _ \<Rightarrow> a)"

text \<open>
  The \<^verbatim>\<open>try\<close> block. Each of its throws comes before the first write to the state, so the
  \<^verbatim>\<open>catch\<close> clause finds the state the handler was called in.
\<close>

definition try_block ::
  "(string \<Rightarrow> jsvalue option) \<Rightarrow> (nat \<Rightarrow> hsl) \<Rightarrow> payload \<Rightarrow> app \<Rightarrow> js_error + app" where
  "try_block JSON_parse getHSL data a =
     (case (case data of
              Text s \<Rightarrow> (case JSON_parse s of None \<Rightarrow> Inl SyntaxError | Some p \<Rightarrow> Inr p)
            | Value p \<Rightarrow> Inr p) of
        Inl e \<Rightarrow> Inl e
      | Inr Nullish \<Rightarrow> Inl TypeError
      | Inr (Object parsedData) \<Rightarrow>
          if freqs parsedData = None \<or> waterfall parsedData = None
          then Inl (Error ''Invalid data structure'')
          else (case addData getHSL parsedData (visualizer a) of
                  Inl e \<Rightarrow> Inl e
                | Inr v' \<Rightarrow> Inr (updateLineChart parsedData (a\<lparr>visualizer := v'\<rparr>))))"

definition catch_block :: "payload \<Rightarrow> app \<Rightarrow> js_error \<Rightarrow> js_error + app" where
  "catch_block data a error =
     Inr (a\<lparr>console := console a @
               [Console_error ''Data parsing error:'' error,
                Console_log ''Raw received data:'' data]\<rparr>)"

definition on_spectrum_data ::
  "(string \<Rightarrow> jsvalue option) \<Rightarrow> (nat \<Rightarrow> hsl) \<Rightarrow> payload \<Rightarrow> app \<Rightarrow> js_error + app" where
  "on_spectrum_data JSON_parse getHSL data a =
     (if \<not> isStreaming a then Inr a
      else (case try_block JSON_parse getHSL data a of
              Inl error \<Rightarrow> catch_block data a error
            | Inr a' \<Rightarrow> Inr a'))"

text \<open>The module's variables once \<^verbatim>\<open>initialize\<close> has run, on a container of the given size.\<close>

definition initialize :: "nat \<Rightarrow> nat \<Rightarrow> app" where
  "initialize width height =
     \<lparr> visualizer = new_WaterfallVisualizer width height,
       lineChart = \<lparr>chart_labels = [], chart_data = []\<rparr>,
       isStreaming = False,
       console = [] \<rparr>"


section \<open>Data for the examples\<close>

text \<open>
  Hue, saturation and lightness of the five colours of the configuration, as fractions,
  for the examples that need a \<open>getHSL\<close>.
\<close>

definition stop_hsl :: "nat \<Rightarrow> hsl" where
  "stop_hsl c =
     (if c = 0x0000ff then \<lparr>hsl_h = 2/3, hsl_s = 1, hsl_l = 1/2\<rparr>
      else if c = 0x00ffff then \<lparr>hsl_h = 1/2, hsl_s = 1, hsl_l = 1/2\<rparr>
      else if c = 0x00ff00 then \<lparr>hsl_h = 1/3, hsl_s = 1, hsl_l = 1/2\<rparr>
      else if c = 0xffff00 then \<lparr>hsl_h = 1/6, hsl_s = 1, hsl_l = 1/2\<rparr>
      else if c = 0xff0000 then \<lparr>hsl_h = 0, hsl_s = 1, hsl_l = 1/2\<rparr>
      else \<lparr>hsl_h = 0, hsl_s = 0, hsl_l = 0\<rparr>)"


text \<open>
  One component of the interpolation of \<^verbatim>\<open>getColor\<close>, \<^verbatim>\<open>c1.x + t * (c2.x - c1.x)\<close>,
  for the statements about the colour it returns.
\<close>

definition mix :: "jsnum \<Rightarrow> real \<Rightarrow> real \<Rightarrow> jsnum" where
  "mix t a b = js_add (Fin a) (js_mul t (js_sub (Fin b) (Fin a)))"


text \<open>A frame of three samples and the two frames without a drawable row of samples.\<close>

definition example_frame :: frame where
  "example_frame =
     \<lparr> freqs = Some [Fin 100, Fin 200, Fin 300],
       power = Some [Fin (-40), Fin (-20), Fin (-30)],
       waterfall = Some [Fin 1, Fin 3, Fin 2] \<rparr>"

definition empty_frame :: frame where
  "empty_frame = \<lparr>freqs = Some [], power = Some [], waterfall = Some []\<rparr>"

definition no_waterfall_frame :: frame where
  "no_waterfall_frame = \<lparr>freqs = Some [Fin 1, Fin 2], power = Some [Fin 1, Fin 2], waterfall = None\<rparr>"


text \<open>
  A frame of a hundred samples, as \<^verbatim>\<open>addTestData\<close> builds them (no \<^verbatim>\<open>power\<close>), and a
  frame of one sample.
\<close>

definition ramp_frame :: frame where
  "ramp_frame =
     \<lparr> freqs = Some (map (\<lambda>i. Fin (real i)) [0 ..< 100]),
       power = None,
       waterfall = Some (map (\<lambda>i. Fin (real i / 100)) [0 ..< 100]) \<rparr>"

definition single_frame :: frame where
  "single_frame = \<lparr>freqs = Some [Fin 100], power = Some [Fin (-30)], waterfall = Some [Fin 5]\<rparr>"

text \<open>Runs of the visualizer and the states they end in.\<close>

definition example_calls :: "call list" where
  "example_calls = [AddData example_frame, ContainerResized 1600 600, AddData single_frame]"

definition one_row :: waterfall_visualizer where
  "one_row = projr (run stop_hsl [AddData single_frame] (new_WaterfallVisualizer 2 0))"

definition two_rows :: waterfall_visualizer where
  "two_rows = projr (addData stop_hsl single_frame one_row)"

definition narrow_row :: waterfall_visualizer where
  "narrow_row = projr (run stop_hsl [AddData example_frame] (new_WaterfallVisualizer 800 600))"

definition wide_row :: waterfall_visualizer where
  "wide_row = projr (addData stop_hsl example_frame (container_resized 1600 600 narrow_row))"

definition nan_row :: waterfall_visualizer where
  "nan_row = projr (addData stop_hsl single_frame (container_resized 1600 600 narrow_row))"

text \<open>A \<^verbatim>\<open>JSON.parse\<close> for the examples: an object without fields, \<^verbatim>\<open>null\<close>, or a syntax error.\<close>

definition example_parse :: "string \<Rightarrow> jsvalue option" where
  "example_parse s =
     (if s = ''{}'' then Some (Object \<lparr>freqs = None, power = None, waterfall = None\<rparr>)
      else if s = ''null'' then Some Nullish
      else None)"

section \<open>Well-formed states and valid calls\<close>

text \<open>
  What every state of a run satisfies: no line twice in \<^verbatim>\<open>this.lines\<close> or in the scene,
  every line allocated, and the scene holding the light and exactly the lines of
  \<^verbatim>\<open>this.lines\<close>.
\<close>

definition consistent :: "waterfall_visualizer \<Rightarrow> bool" where
  "consistent v \<longleftrightarrow>
     distinct (lines v) \<and> distinct (scene v) \<and>
     list_all (\<lambda>l. l < next_line v) (lines v) \<and>
     set (scene v) = insert AmbientLight (Line ` set (lines v))"

text \<open>A valid frame has its array of samples.\<close>

fun valid_call :: "call \<Rightarrow> bool" where
  "valid_call (AddData data) = (waterfall data \<noteq> None)"
| "valid_call (ContainerResized width height) = True"


text \<open>
  The state of \<^verbatim>\<open>addData\<close> when its \<^verbatim>\<open>forEach\<close> begins: the new line is created, placed
  at the top of the container, put in front of \<^verbatim>\<open>this.lines\<close> and into the scene, and the
  oldest line is popped if there are more than \<open>maxLines\<close>.
\<close>

definition before_forEach :: "geometry \<Rightarrow> waterfall_visualizer \<Rightarrow> waterfall_visualizer" where
  "before_forEach geom v =
     (let line = next_line v;
          v1 = v\<lparr> next_line := Suc line,
                   line_geometry := (line_geometry v)(line := geom),
                   position_y := (position_y v)(line := real (clientHeight v)) \<rparr>;
          v2 = v1\<lparr>lines := line # lines v1\<rparr>;
          v3 = v2\<lparr>scene := scene v2 @ [Line line]\<rparr>
      in if maxLines < length (lines v3) then pop_oldest v3 else v3)"

text \<open>
  The rows lie one step apart below the top of the container: line \<open>j\<close> of
  \<^verbatim>\<open>this.lines\<close> has moved down \<open>j + 1\<close> times. A run that only adds frames keeps it so.
\<close>

definition stacked :: "waterfall_visualizer \<Rightarrow> bool" where
  "stacked v \<longleftrightarrow>
     (\<forall>j<length (lines v). position_y v (lines v ! j) = real (clientHeight v) - real (Suc j))"

section \<open>Arithmetic on finite numbers\<close>

lemma js_sub_Fin: "js_sub (Fin a) (Fin b) = Fin (a - b)"
  by (simp add: js_sub_def)

lemma fold_min2_Fin: "fold Math_min2 (map Fin xs) (Fin a) = Fin (fold min xs a)"
  by (induction xs arbitrary: a) (auto simp: min_def)

lemma fold_max2_Fin: "fold Math_max2 (map Fin xs) (Fin a) = Fin (fold max xs a)"
  by (induction xs arbitrary: a) (auto simp: max_def)

lemma Math_min_Fin: "xs \<noteq> [] \<Longrightarrow> Math_min (map Fin xs) = Fin (Min (set xs))"
proof (cases xs)
  case Nil
  assume "xs \<noteq> []"
  with Nil show ?thesis by simp
next
  case (Cons x ys)
  have "Math_min (map Fin xs) = fold Math_min2 (map Fin ys) (Fin x)"
    by (simp add: Math_min_def Cons)
  also have "\<dots> = Fin (fold min ys x)" by (rule fold_min2_Fin)
  also have "fold min ys x = Min (set xs)"
    unfolding Cons by (rule Min.set_eq_fold [symmetric])
  finally show ?thesis .
qed

lemma Math_max_Fin: "xs \<noteq> [] \<Longrightarrow> Math_max (map Fin xs) = Fin (Max (set xs))"
proof (cases xs)
  case Nil
  assume "xs \<noteq> []"
  with Nil show ?thesis by simp
next
  case (Cons x ys)
  have "Math_max (map Fin xs) = fold Math_max2 (map Fin ys) (Fin x)"
    by (simp add: Math_max_def Cons)
  also have "\<dots> = Fin (fold max ys x)" by (rule fold_max2_Fin)
  also have "fold max ys x = Max (set xs)"
    unfolding Cons by (rule Max.set_eq_fold [symmetric])
  finally show ?thesis .
qed


section \<open>\<^verbatim>\<open>normalizeData\<close>\<close>

lemma normalizeData_length: "length (normalizeData data) = length data"
  by (simp add: normalizeData_def Let_def)

lemma normalizeData_flat:
  assumes "xs \<noteq> []" "Max (set xs) = Min (set xs)"
  shows "normalizeData (map Fin xs) = replicate (length xs) (Fin (1/2))"
  using assms
  by (simp add: normalizeData_def Math_min_Fin Math_max_Fin js_sub_Fin map_replicate_const)

lemma normalizeData_spread:
  assumes "xs \<noteq> []" "Max (set xs) \<noteq> Min (set xs)" "i < length xs"
  shows "normalizeData (map Fin xs) ! i =
           Fin ((xs ! i - Min (set xs)) / (Max (set xs) - Min (set xs)))"
  using assms
  by (simp add: normalizeData_def Math_min_Fin Math_max_Fin js_sub_Fin)

lemma unit_interval:
  fixes xs :: "real list"
  assumes "Max (set xs) \<noteq> Min (set xs)" "i < length xs"
  shows "0 \<le> (xs ! i - Min (set xs)) / (Max (set xs) - Min (set xs)) \<and>
         (xs ! i - Min (set xs)) / (Max (set xs) - Min (set xs)) \<le> 1"
proof -
  have m: "xs ! i \<in> set xs" using assms(2) by simp
  have lo: "Min (set xs) \<le> xs ! i" using m by simp
  have hi: "xs ! i \<le> Max (set xs)" using m by simp
  have "Min (set xs) \<le> Max (set xs)" using lo hi by linarith
  with assms(1) have pos: "0 < Max (set xs) - Min (set xs)" by linarith
  show ?thesis using lo hi pos by (simp add: divide_le_eq)
qed

text \<open>
  C4, on finite samples whose spread does not overflow. \<^verbatim>\<open>normalizeData\<close> keeps the
  length of any input. On a non-empty array of finite numbers whose maximum equals its
  minimum, every output is 0.5. On an array of finite numbers whose maximum differs from
  its minimum, with \<^verbatim>\<open>max - min\<close> no more than \<^verbatim>\<open>Number.MAX_VALUE\<close>, output \<open>i\<close> is
  \<open>(v\<^sub>i - min) / (max - min)\<close>, a number between 0 and 1. (Where \<^verbatim>\<open>max - min\<close> overflows,
  as on \<^verbatim>\<open>[1e308, -1e308]\<close>, the program divides by \<^verbatim>\<open>Infinity\<close> and an output can be
  \<^verbatim>\<open>NaN\<close>; the statement does not reach there.)
\<close>

theorem normalizeData_finite:
  "length (normalizeData data) = length data \<and>
   (xs \<noteq> [] \<and> list_all (\<lambda>x. \<bar>x\<bar> \<le> Number_MAX_VALUE) xs \<and> Max (set xs) = Min (set xs) \<longrightarrow>
      normalizeData (map Fin xs) = replicate (length xs) (Fin (1/2))) \<and>
   (list_all (\<lambda>y. \<bar>y\<bar> \<le> Number_MAX_VALUE) ys \<and>
    Max (set ys) \<noteq> Min (set ys) \<and> Max (set ys) - Min (set ys) \<le> Number_MAX_VALUE \<and>
    i < length ys \<longrightarrow>
      normalizeData (map Fin ys) ! i =
        Fin ((ys ! i - Min (set ys)) / (Max (set ys) - Min (set ys))) \<and>
      0 \<le> (ys ! i - Min (set ys)) / (Max (set ys) - Min (set ys)) \<and>
      (ys ! i - Min (set ys)) / (Max (set ys) - Min (set ys)) \<le> 1)"
proof (intro conjI impI)
  show "length (normalizeData data) = length data"
    by (rule normalizeData_length)
next
  assume "xs \<noteq> [] \<and> list_all (\<lambda>x. \<bar>x\<bar> \<le> Number_MAX_VALUE) xs \<and> Max (set xs) = Min (set xs)"
  then show "normalizeData (map Fin xs) = replicate (length xs) (Fin (1/2))"
    by (simp add: normalizeData_flat)
next
  assume h: "list_all (\<lambda>y. \<bar>y\<bar> \<le> Number_MAX_VALUE) ys \<and>
    Max (set ys) \<noteq> Min (set ys) \<and> Max (set ys) - Min (set ys) \<le> Number_MAX_VALUE \<and>
    i < length ys"
  then have "ys \<noteq> []" by auto
  with h show "normalizeData (map Fin ys) ! i =
      Fin ((ys ! i - Min (set ys)) / (Max (set ys) - Min (set ys)))"
    by (simp add: normalizeData_spread)
next
  assume "list_all (\<lambda>y. \<bar>y\<bar> \<le> Number_MAX_VALUE) ys \<and>
    Max (set ys) \<noteq> Min (set ys) \<and> Max (set ys) - Min (set ys) \<le> Number_MAX_VALUE \<and>
    i < length ys"
  then show "0 \<le> (ys ! i - Min (set ys)) / (Max (set ys) - Min (set ys))"
    using unit_interval [of ys i] by simp
next
  assume "list_all (\<lambda>y. \<bar>y\<bar> \<le> Number_MAX_VALUE) ys \<and>
    Max (set ys) \<noteq> Min (set ys) \<and> Max (set ys) - Min (set ys) \<le> Number_MAX_VALUE \<and>
    i < length ys"
  then show "(ys ! i - Min (set ys)) / (Max (set ys) - Min (set ys)) \<le> 1"
    using unit_interval [of ys i] by simp
qed

theorem normalizeData_finite_witness:
  "list_all (\<lambda>x. \<bar>x\<bar> \<le> Number_MAX_VALUE) [7, 7] \<and>
   list_all (\<lambda>y. \<bar>y\<bar> \<le> Number_MAX_VALUE) [1, 3, 2] \<and>
   Max (set [1, 3, 2 :: real]) - Min (set [1, 3, 2]) \<le> Number_MAX_VALUE \<and>
   normalizeData [Fin 7, Fin 7] = [Fin (1/2), Fin (1/2)] \<and>
   normalizeData [Fin 1, Fin 3, Fin 2] ! 2 = Fin (1/2) \<and>
   length (normalizeData [NaN, PInf]) = 2"
  using normalizeData_finite [of "[NaN, PInf]" "[7, 7]" "[1, 3, 2]" 2]
  by (simp add: numeral_2_eq_2 Number_MAX_VALUE_def)


text \<open>
  C4 as it is written fails on an array that holds \<^verbatim>\<open>Infinity\<close>: the maximum equals the
  minimum, \<^verbatim>\<open>max - min\<close> is \<^verbatim>\<open>NaN\<close> and not zero, and the output is \<^verbatim>\<open>NaN\<close>, not 0.5.
\<close>

theorem normalizeData_infinity_counterexample:
  "Math_max [PInf] = Math_min [PInf] \<and> normalizeData [PInf] = [NaN] \<and>
   normalizeData [PInf] \<noteq> [Fin (1/2)]"
  by (simp add: normalizeData_def Math_min_def Math_max_def js_sub_def)


section \<open>\<^verbatim>\<open>getColor\<close>\<close>

lemma clamp01_cases: "v \<noteq> NaN \<Longrightarrow> \<exists>c. clamp01 v = Fin c \<and> 0 \<le> c \<and> c \<le> 1"
  by (cases v) (auto simp: clamp01_def)

lemma interpolate_mix:
  "interpolate g v prev next =
     Color_setHSL (mix (stop_fraction v prev next) (hsl_h (g (snd prev))) (hsl_h (g (snd next))))
       (js_mul (mix (stop_fraction v prev next) (hsl_s (g (snd prev))) (hsl_s (g (snd next)))) (Fin (3/2)))
       (mix (stop_fraction v prev next) (hsl_l (g (snd prev))) (hsl_l (g (snd next))))"
  by (simp add: interpolate_def mix_def Let_def)

lemma stop_search_first:
  assumes "c \<le> 1"
  shows "\<exists>i. Suc i < length config_colors \<and>
           js_le (Fin c) (Fin (fst (config_colors ! Suc i))) \<and>
           (\<forall>j<i. \<not> js_le (Fin c) (Fin (fst (config_colors ! Suc j)))) \<and>
           stop_search g (Fin c) config_colors =
             Some (interpolate g (Fin c) (config_colors ! i) (config_colors ! Suc i))"
proof -
  consider "c \<le> 1/4" | "1/4 < c" "c \<le> 1/2" | "1/2 < c" "c \<le> 3/4" | "3/4 < c"
    by linarith
  then show ?thesis
  proof cases
    case 1
    then show ?thesis by (intro exI [of _ 0]) (simp add: config_colors_def)
  next
    case 2
    then show ?thesis by (intro exI [of _ 1]) (simp add: config_colors_def)
  next
    case 3
    then show ?thesis
      by (intro exI [of _ 2]) (simp add: config_colors_def less_Suc_eq numeral_2_eq_2)
  next
    case 4
    with assms show ?thesis
      by (intro exI [of _ 3]) (simp add: config_colors_def less_Suc_eq numeral_3_eq_3)
  qed
qed












text \<open>
  C10, for every input but \<^verbatim>\<open>NaN\<close>: the loop returns at the first stop \<open>i + 1\<close> whose
  \<^verbatim>\<open>t\<close> is at least the clamped value, and the colour of \<^verbatim>\<open>getColor\<close> is the one built
  there by \<^verbatim>\<open>setHSL\<close>: hue and lightness interpolated between stops \<open>i\<close> and \<open>i + 1\<close>, and
  the interpolated saturation multiplied by 1.5.
\<close>

theorem getColor_finds_stop:
  "v \<noteq> NaN \<Longrightarrow>
   \<exists>i. Suc i < length config_colors \<and>
       js_le (clamp01 v) (Fin (fst (config_colors ! Suc i))) \<and>
       (\<forall>j<i. \<not> js_le (clamp01 v) (Fin (fst (config_colors ! Suc j)))) \<and>
       stop_search g (clamp01 v) config_colors = Some (getColor g v) \<and>
       getColor g v =
         Color_setHSL
           (mix (stop_fraction (clamp01 v) (config_colors ! i) (config_colors ! Suc i))
              (hsl_h (g (snd (config_colors ! i)))) (hsl_h (g (snd (config_colors ! Suc i)))))
           (js_mul
              (mix (stop_fraction (clamp01 v) (config_colors ! i) (config_colors ! Suc i))
                 (hsl_s (g (snd (config_colors ! i)))) (hsl_s (g (snd (config_colors ! Suc i)))))
              (Fin (3/2)))
           (mix (stop_fraction (clamp01 v) (config_colors ! i) (config_colors ! Suc i))
              (hsl_l (g (snd (config_colors ! i)))) (hsl_l (g (snd (config_colors ! Suc i)))))"
proof -
  assume "v \<noteq> NaN"
  then obtain c where c: "clamp01 v = Fin c" "c \<le> 1"
    using clamp01_cases by blast
  from stop_search_first [OF c(2), of g] obtain i where i:
    "Suc i < length config_colors"
    "js_le (Fin c) (Fin (fst (config_colors ! Suc i)))"
    "\<forall>j<i. \<not> js_le (Fin c) (Fin (fst (config_colors ! Suc j)))"
    "stop_search g (Fin c) config_colors =
       Some (interpolate g (Fin c) (config_colors ! i) (config_colors ! Suc i))"
    by blast
  have gc: "getColor g v = interpolate g (Fin c) (config_colors ! i) (config_colors ! Suc i)"
    by (simp add: getColor_def c(1) i(4))
  show ?thesis
    using i(1) i(2) i(3) i(4) gc
    unfolding c(1) interpolate_mix by (intro exI [of _ i]) simp
qed

theorem getColor_finds_stop_witness:
  "Fin (1/3) \<noteq> NaN \<and>
   getColor stop_hsl (Fin (1/3)) = Color_setHSL (Fin (4/9)) (Fin (3/2)) (Fin (1/2)) \<and>
   stop_search stop_hsl (clamp01 (Fin (1/3))) config_colors =
     Some (Color_setHSL (Fin (4/9)) (Fin (3/2)) (Fin (1/2)))"
  using getColor_finds_stop [of "Fin (1/3)" stop_hsl]
  by (simp add: getColor_def clamp01_def config_colors_def interpolate_def stop_fraction_def
      js_sub_Fin stop_hsl_def Let_def)


text \<open>
  C10 as it is written fails on \<^verbatim>\<open>NaN\<close>: the clamp returns \<^verbatim>\<open>NaN\<close>, every comparison
  of the loop is false, and the colour is the last stop's, built from its hex code.
  \<^verbatim>\<open>normalizeData\<close> hands \<^verbatim>\<open>NaN\<close> to \<^verbatim>\<open>getColor\<close> on a frame that holds \<^verbatim>\<open>Infinity\<close>.
\<close>

theorem getColor_NaN_counterexample:
  "stop_search stop_hsl (clamp01 NaN) config_colors = None \<and>
   getColor stop_hsl NaN = Color_hex 0xff0000 \<and>
   normalizeData [PInf, Fin 0] = [NaN, Fin 0]"
  by (simp add: getColor_def clamp01_def config_colors_def normalizeData_def Math_min_def Math_max_def js_sub_def)


section \<open>The \<^verbatim>\<open>spectrum_data\<close> handler, proved\<close>

text \<open>
  C9. While \<^verbatim>\<open>isStreaming\<close> is false, a \<^verbatim>\<open>spectrum_data\<close> event of any payload leaves
  the whole state as it was, the history and the line chart with it.
\<close>

theorem streaming_off_ignored:
  "\<not> isStreaming a \<Longrightarrow> on_spectrum_data JSON_parse getHSL data a = Inr a"
  by (simp add: on_spectrum_data_def)

theorem streaming_off_ignored_witness:
  "\<not> isStreaming (initialize 800 600) \<and>
   on_spectrum_data (\<lambda>s. None) stop_hsl
     (Value (Object \<lparr>freqs = Some [Fin 1, Fin 2], power = Some [Fin 1, Fin 2], waterfall = Some [Fin 1, Fin 2]\<rparr>))
     (initialize 800 600) = Inr (initialize 800 600)"
  using streaming_off_ignored [of "initialize 800 600" "\<lambda>s. None" stop_hsl]
  by (simp add: initialize_def)

text \<open>
  C6, while streaming is on. A payload without \<^verbatim>\<open>freqs\<close> or without \<^verbatim>\<open>waterfall\<close>, given
  as a value or as a string that parses to one, and a string that does not parse, are
  dropped: the handler returns normally, the state is the one it was called in but for two
  new lines of the console, the error and the raw payload. The history and the line chart
  are unchanged.
\<close>

theorem malformed_dropped:
  "isStreaming a \<Longrightarrow>
   (freqs d = None \<or> waterfall d = None \<longrightarrow>
      on_spectrum_data JSON_parse g (Value (Object d)) a =
        Inr (a\<lparr>console := console a @
                 [Console_error ''Data parsing error:'' (Error ''Invalid data structure''),
                  Console_log ''Raw received data:'' (Value (Object d))]\<rparr>)) \<and>
   (JSON_parse s = None \<longrightarrow>
      on_spectrum_data JSON_parse g (Text s) a =
        Inr (a\<lparr>console := console a @
                 [Console_error ''Data parsing error:'' SyntaxError,
                  Console_log ''Raw received data:'' (Text s)]\<rparr>)) \<and>
   (JSON_parse s' = Some (Object d') \<and> (freqs d' = None \<or> waterfall d' = None) \<longrightarrow>
      on_spectrum_data JSON_parse g (Text s') a =
        Inr (a\<lparr>console := console a @
                 [Console_error ''Data parsing error:'' (Error ''Invalid data structure''),
                  Console_log ''Raw received data:'' (Text s')]\<rparr>))"
  by (auto simp: on_spectrum_data_def try_block_def catch_block_def)

theorem malformed_dropped_witness:
  "isStreaming (initialize 800 600\<lparr>isStreaming := True\<rparr>) \<and>
   waterfall no_waterfall_frame = None \<and>
   example_parse ''{'' = None \<and>
   example_parse ''{}'' = Some (Object \<lparr>freqs = None, power = None, waterfall = None\<rparr>) \<and>
   on_spectrum_data example_parse stop_hsl (Value (Object no_waterfall_frame))
       (initialize 800 600\<lparr>isStreaming := True\<rparr>) =
     Inr (initialize 800 600
            \<lparr>isStreaming := True,
             console := [Console_error ''Data parsing error:'' (Error ''Invalid data structure''),
                         Console_log ''Raw received data:'' (Value (Object no_waterfall_frame))]\<rparr>) \<and>
   on_spectrum_data example_parse stop_hsl (Text ''{'') (initialize 800 600\<lparr>isStreaming := True\<rparr>) =
     Inr (initialize 800 600
            \<lparr>isStreaming := True,
             console := [Console_error ''Data parsing error:'' SyntaxError,
                         Console_log ''Raw received data:'' (Text ''{'')]\<rparr>) \<and>
   on_spectrum_data example_parse stop_hsl (Text ''{}'') (initialize 800 600\<lparr>isStreaming := True\<rparr>) =
     Inr (initialize 800 600
            \<lparr>isStreaming := True,
             console := [Console_error ''Data parsing error:'' (Error ''Invalid data structure''),
                         Console_log ''Raw received data:'' (Text ''{}'')]\<rparr>)"
  using malformed_dropped [where a = "initialize 800 600\<lparr>isStreaming := True\<rparr>"
      and d = no_waterfall_frame and JSON_parse = example_parse and g = stop_hsl
      and s = "''{''" and s' = "''{}''"
      and d' = "\<lparr>freqs = None, power = None, waterfall = None\<rparr>"]
  by (simp add: initialize_def no_waterfall_frame_def example_parse_def)

text \<open>
  C6 as it is written fails while streaming is off: the frame without \<^verbatim>\<open>waterfall\<close> is
  dropped and nothing is logged.
\<close>

theorem malformed_not_logged_counterexample:
  "on_spectrum_data (\<lambda>s. None) stop_hsl (Value (Object no_waterfall_frame)) (initialize 800 600) =
     Inr (initialize 800 600) \<and>
   console (initialize 800 600) = []"
  by (simp add: on_spectrum_data_def initialize_def)


section \<open>The \<^verbatim>\<open>forEach\<close> of \<^verbatim>\<open>addData\<close>\<close>

lemma move_down_fields [simp]:
  "clientWidth (move_down a v) = clientWidth v"
  "clientHeight (move_down a v) = clientHeight v"
  "next_line (move_down a v) = next_line v"
  "line_geometry (move_down a v) = line_geometry v"
  "renderer_size (move_down a v) = renderer_size v"
  "camera_right (move_down a v) = camera_right v"
  "camera_top (move_down a v) = camera_top v"
  by (simp_all add: move_down_def Let_def)

lemma move_down_position_y:
  "position_y (move_down a v) = (position_y v)(a := position_y v a - spacing)"
  by (simp add: move_down_def Let_def)

lemma move_down_lines:
  "lines (move_down a v) =
     (if position_y v a - spacing < - spacing then filter (\<lambda>l. l \<noteq> a) (lines v) else lines v)"
  by (simp add: move_down_def Let_def)

lemma move_down_scene:
  "scene (move_down a v) =
     (if position_y v a - spacing < - spacing then remove1 (Line a) (scene v) else scene v)"
  by (simp add: move_down_def Let_def)

lemma fold_move_down_fields [simp]:
  "clientWidth (fold move_down A v) = clientWidth v"
  "clientHeight (fold move_down A v) = clientHeight v"
  "next_line (fold move_down A v) = next_line v"
  "line_geometry (fold move_down A v) = line_geometry v"
  "renderer_size (fold move_down A v) = renderer_size v"
  "camera_right (fold move_down A v) = camera_right v"
  "camera_top (fold move_down A v) = camera_top v"
  by (induction A arbitrary: v; simp)+

lemma fold_move_down_position_y:
  "distinct A \<Longrightarrow>
   position_y (fold move_down A v) r =
     (if r \<in> set A then position_y v r - spacing else position_y v r)"
  by (induction A arbitrary: v) (auto simp: move_down_position_y)

lemma fold_move_down_lines:
  "distinct A \<Longrightarrow>
   lines (fold move_down A v) =
     filter (\<lambda>l. \<not> (l \<in> set A \<and> position_y v l - spacing < - spacing)) (lines v)"
proof (induction A arbitrary: v)
  case Nil
  then show ?case by simp
next
  case (Cons a A)
  have d: "distinct A" and na: "a \<notin> set A" using Cons.prems by auto
  have "lines (fold move_down (a # A) v) = lines (fold move_down A (move_down a v))" by simp
  also have "\<dots> = filter (\<lambda>l. \<not> (l \<in> set A \<and> position_y (move_down a v) l - spacing < - spacing))
                      (lines (move_down a v))"
    by (rule Cons.IH [OF d])
  also have "\<dots> = filter (\<lambda>l. \<not> (l \<in> set A \<and> position_y v l - spacing < - spacing))
                      (lines (move_down a v))"
    using na by (intro filter_cong) (auto simp: move_down_position_y)
  also have "\<dots> = filter (\<lambda>l. \<not> (l \<in> set (a # A) \<and> position_y v l - spacing < - spacing)) (lines v)"
    by (auto simp: move_down_lines intro!: filter_cong)
  finally show ?case .
qed

lemma fold_move_down_scene_set:
  "distinct A \<Longrightarrow> distinct (scene v) \<Longrightarrow>
   distinct (scene (fold move_down A v)) \<and>
   set (scene (fold move_down A v)) =
     set (scene v) - Line ` {l \<in> set A. position_y v l - spacing < - spacing}"
proof (induction A arbitrary: v)
  case Nil
  then show ?case by simp
next
  case (Cons a A)
  have d: "distinct A" and na: "a \<notin> set A" using Cons.prems by auto
  have ds: "distinct (scene (move_down a v))"
    using Cons.prems(2) by (simp add: move_down_scene)
  have y: "\<And>l. l \<in> set A \<Longrightarrow> position_y (move_down a v) l = position_y v l"
    using na by (auto simp: move_down_position_y)
  have "{l \<in> set A. position_y (move_down a v) l - spacing < - spacing}
          = {l \<in> set A. position_y v l - spacing < - spacing}"
    using y by auto
  with Cons.IH [OF d ds] have ih: "distinct (scene (fold move_down A (move_down a v)))"
    "set (scene (fold move_down A (move_down a v))) =
       set (scene (move_down a v)) - Line ` {l \<in> set A. position_y v l - spacing < - spacing}"
    by simp_all
  have s: "set (scene (move_down a v)) =
      (if position_y v a - spacing < - spacing then set (scene v) - {Line a} else set (scene v))"
    using Cons.prems(2) by (simp add: move_down_scene)
  show ?case using ih s by auto
qed

lemma length_fold_move_down: "length (lines (fold move_down A v)) \<le> length (lines v)"
proof (induction A arbitrary: v)
  case Nil
  then show ?case by simp
next
  case (Cons a A)
  have "length (lines (move_down a v)) \<le> length (lines v)"
    by (simp add: move_down_lines)
  with Cons.IH [of "move_down a v"] show ?case by simp
qed


section \<open>\<^verbatim>\<open>createGeometry\<close>\<close>

lemma createGeometry_Inr:
  "waterfall d = Some ws \<Longrightarrow> \<exists>geom. createGeometry g d v = Inr geom"
  by (simp add: createGeometry_def Let_def)

lemma createGeometry_Inl:
  "waterfall d = None \<Longrightarrow> createGeometry g d v = Inl TypeError"
  by (simp add: createGeometry_def)

lemma createGeometry_width:
  "clientWidth v = clientWidth v' \<Longrightarrow> createGeometry g d v = createGeometry g d v'"
  by (cases "waterfall d") (simp_all add: createGeometry_def)

lemma createGeometry_x:
  assumes "waterfall d = Some ws" "createGeometry g d v = Inr geom"
  shows "map fst (position_attr geom) =
           map (\<lambda>i. js_mul (Fin (real i))
                      (js_div (Fin (real (clientWidth v))) (Fin (real (length ws) - 1))))
             [0 ..< length ws]"
  using assms by (auto simp: createGeometry_def Let_def normalizeData_length)

lemma createGeometry_x_wide:
  assumes "waterfall d = Some ws" "2 \<le> length ws" "createGeometry g d v = Inr geom"
  shows "map fst (position_attr geom) =
           map (\<lambda>i. Fin (real i * (real (clientWidth v) / (real (length ws) - 1)))) [0 ..< length ws]"
proof -
  have "real (length ws) - 1 \<noteq> 0" using assms(2) by auto
  then show ?thesis using createGeometry_x [OF assms(1) assms(3)] by simp
qed

lemma createGeometry_x_short:
  assumes "waterfall d = Some ws" "length ws < 2" "createGeometry g d v = Inr geom"
  shows "map fst (position_attr geom) = replicate (length ws) NaN"
proof (cases ws)
  case Nil
  with createGeometry_x [OF assms(1) assms(3)] show ?thesis by simp
next
  case (Cons x xs)
  with assms(2) have "ws = [x]" by simp
  with createGeometry_x [OF assms(1) assms(3)] show ?thesis by simp
qed

lemma x_in_span:
  assumes "2 \<le> n" "i < n"
  shows "0 \<le> real i * (real W / (real n - 1)) \<and> real i * (real W / (real n - 1)) \<le> real W"
proof -
  have pos: "0 < real n - 1" using assms(1) by simp
  have le: "real i \<le> real n - 1" using assms(2) by simp
  have f: "real i / (real n - 1) \<le> 1" using pos le by (simp add: divide_le_eq)
  have f0: "0 \<le> real i / (real n - 1)" using pos by simp
  have e: "real i * (real W / (real n - 1)) = real i / (real n - 1) * real W" by simp
  have "real i / (real n - 1) * real W \<le> real W"
    by (rule mult_left_le_one_le) (simp_all add: f f0)
  moreover have "0 \<le> real i / (real n - 1) * real W"
    by (rule mult_nonneg_nonneg [OF f0]) simp
  ultimately show ?thesis unfolding e by simp
qed


section \<open>One call of \<^verbatim>\<open>addData\<close>\<close>

lemma addData_eq:
  "createGeometry g d v = Inr geom \<Longrightarrow>
   addData g d v = Inr (fold move_down (lines (before_forEach geom v)) (before_forEach geom v))"
  by (simp add: addData_def before_forEach_def Let_def)

lemma addData_valid:
  "waterfall d \<noteq> None \<Longrightarrow> \<exists>v'. addData g d v = Inr v'"
  using createGeometry_Inr [of d _ g v] addData_eq [of g d v] by auto

lemma before_forEach_fields [simp]:
  "clientWidth (before_forEach geom v) = clientWidth v"
  "clientHeight (before_forEach geom v) = clientHeight v"
  "next_line (before_forEach geom v) = Suc (next_line v)"
  "line_geometry (before_forEach geom v) = (line_geometry v)(next_line v := geom)"
  "position_y (before_forEach geom v) = (position_y v)(next_line v := real (clientHeight v))"
  "renderer_size (before_forEach geom v) = renderer_size v"
  "camera_right (before_forEach geom v) = camera_right v"
  "camera_top (before_forEach geom v) = camera_top v"
  by (simp_all add: before_forEach_def pop_oldest_def Let_def)

lemma before_forEach_lines:
  "lines (before_forEach geom v) =
     (if maxLines < Suc (length (lines v)) then butlast (next_line v # lines v)
      else next_line v # lines v)"
  by (simp add: before_forEach_def pop_oldest_def Let_def)

lemma before_forEach_scene:
  "scene (before_forEach geom v) =
     (if maxLines < Suc (length (lines v))
      then remove1 (Line (last (next_line v # lines v))) (scene v @ [Line (next_line v)])
      else scene v @ [Line (next_line v)])"
  by (simp add: before_forEach_def pop_oldest_def Let_def)

lemma before_forEach_length:
  "length (lines v) \<le> maxLines \<Longrightarrow> length (lines (before_forEach geom v)) \<le> maxLines"
  by (simp add: before_forEach_lines)

lemma before_forEach_take:
  "length (lines v) \<le> maxLines \<Longrightarrow>
   lines (before_forEach geom v) = take maxLines (next_line v # lines v)"
proof (cases "maxLines < Suc (length (lines v))")
  case True
  assume "length (lines v) \<le> maxLines"
  with True have "length (next_line v # lines v) = Suc maxLines" by simp
  then have "butlast (next_line v # lines v) = take maxLines (next_line v # lines v)"
    by (simp add: butlast_conv_take)
  with True show ?thesis by (simp add: before_forEach_lines)
next
  case False
  then show ?thesis by (simp add: before_forEach_lines)
qed

lemma set_butlast_distinct:
  "distinct xs \<Longrightarrow> xs \<noteq> [] \<Longrightarrow> set (butlast xs) = set xs - {last xs}"
proof -
  assume d: "distinct xs" and ne: "xs \<noteq> []"
  then have "xs = butlast xs @ [last xs]" by simp
  then have "distinct (butlast xs @ [last xs])" "set xs = set (butlast xs @ [last xs])"
    using d by simp_all
  then show ?thesis by auto
qed

lemma before_forEach_consistent:
  assumes "consistent v"
  shows "consistent (before_forEach geom v)"
proof -
  let ?n = "next_line v"
  let ?L = "?n # lines v"
  from assms have dl: "distinct (lines v)" and ds: "distinct (scene v)"
    and b: "\<forall>l\<in>set (lines v). l < ?n"
    and m: "set (scene v) = insert AmbientLight (Line ` set (lines v))"
    by (simp_all add: consistent_def list_all_iff)
  have fresh: "?n \<notin> set (lines v)" using b by auto
  then have fresh_scene: "Line ?n \<notin> set (scene v)" using m by auto
  have dL: "distinct ?L" using dl fresh by simp
  have dS: "distinct (scene v @ [Line ?n])" using ds fresh_scene by simp
  have mS: "set (scene v @ [Line ?n]) = insert AmbientLight (Line ` set ?L)" using m by auto
  show ?thesis
  proof (cases "maxLines < Suc (length (lines v))")
    case False
    then show ?thesis
      using dL dS mS b
      by (simp add: consistent_def before_forEach_lines before_forEach_scene list_all_iff less_Suc_eq)
  next
    case True
    have sb: "set (butlast ?L) = set ?L - {last ?L}"
      by (rule set_butlast_distinct [OF dL]) simp
    have "set (remove1 (Line (last ?L)) (scene v @ [Line ?n])) =
            set (scene v @ [Line ?n]) - {Line (last ?L)}"
      using dS by (rule set_remove1_eq)
    also have "\<dots> = insert AmbientLight (Line ` set ?L) - {Line (last ?L)}"
      using mS by simp
    also have "\<dots> = insert AmbientLight (Line ` (set ?L - {last ?L}))" by auto
    finally have ms: "set (remove1 (Line (last ?L)) (scene v @ [Line ?n])) =
                        insert AmbientLight (Line ` set (butlast ?L))"
      using sb by simp
    have bb: "\<forall>l\<in>set (butlast ?L). l < Suc ?n"
      using b by (auto dest!: in_set_butlastD simp: less_Suc_eq)
    show ?thesis
      using True dL dS ms bb
      by (simp add: consistent_def before_forEach_lines before_forEach_scene list_all_iff
                    distinct_butlast del: butlast.simps)
  qed
qed

lemma fold_move_down_consistent:
  assumes "consistent p"
  shows "consistent (fold move_down (lines p) p)"
proof -
  let ?E = "{l \<in> set (lines p). position_y p l - spacing < - spacing}"
  from assms have dl: "distinct (lines p)" and ds: "distinct (scene p)"
    and b: "\<forall>l\<in>set (lines p). l < next_line p"
    and m: "set (scene p) = insert AmbientLight (Line ` set (lines p))"
    by (simp_all add: consistent_def list_all_iff)
  have l: "lines (fold move_down (lines p) p) =
      filter (\<lambda>l. \<not> (l \<in> set (lines p) \<and> position_y p l - spacing < - spacing)) (lines p)"
    by (rule fold_move_down_lines [OF dl])
  have sl: "set (lines (fold move_down (lines p) p)) = set (lines p) - ?E"
    unfolding l by auto
  have s: "distinct (scene (fold move_down (lines p) p))"
    "set (scene (fold move_down (lines p) p)) = set (scene p) - Line ` ?E"
    using fold_move_down_scene_set [OF dl ds] by simp_all
  have "set (scene p) - Line ` ?E = insert AmbientLight (Line ` (set (lines p) - ?E))"
    unfolding m by auto
  with s(2) sl have ms: "set (scene (fold move_down (lines p) p)) =
      insert AmbientLight (Line ` set (lines (fold move_down (lines p) p)))" by simp
  have dl': "distinct (lines (fold move_down (lines p) p))" unfolding l using dl by simp
  have b': "\<forall>l\<in>set (lines (fold move_down (lines p) p)). l < next_line p"
    using b sl by auto
  show ?thesis
    using dl' s(1) ms b' by (simp add: consistent_def list_all_iff)
qed

lemma addData_consistent:
  assumes "consistent v" "addData g d v = Inr v'"
  shows "consistent v'"
proof -
  from assms(2) obtain geom where geom: "createGeometry g d v = Inr geom"
    by (auto simp: addData_def split: sum.splits)
  from assms(2) addData_eq [OF geom]
  have "v' = fold move_down (lines (before_forEach geom v)) (before_forEach geom v)" by simp
  then show ?thesis
    using fold_move_down_consistent [OF before_forEach_consistent [OF assms(1)]] by simp
qed

lemma addData_length:
  assumes "length (lines v) \<le> maxLines" "addData g d v = Inr v'"
  shows "length (lines v') \<le> maxLines"
proof -
  from assms(2) obtain geom where geom: "createGeometry g d v = Inr geom"
    by (auto simp: addData_def split: sum.splits)
  from assms(2) addData_eq [OF geom]
  have "v' = fold move_down (lines (before_forEach geom v)) (before_forEach geom v)" by simp
  then have "length (lines v') \<le> length (lines (before_forEach geom v))"
    by (simp add: length_fold_move_down)
  also have "\<dots> \<le> maxLines" by (rule before_forEach_length [OF assms(1)])
  finally show ?thesis .
qed

lemma addData_newest:
  assumes c: "consistent v" and geom: "createGeometry g d v = Inr geom"
  shows "\<exists>v'. addData g d v = Inr v' \<and> consistent v' \<and>
           lines v' \<noteq> [] \<and> hd (lines v') = next_line v \<and>
           line_geometry v' = (line_geometry v)(next_line v := geom) \<and>
           position_y v' (next_line v) = real (clientHeight v) - spacing \<and>
           (\<forall>l\<in>set (lines v'). - spacing \<le> position_y v' l)"
proof -
  let ?p = "before_forEach geom v"
  let ?A = "lines ?p"
  let ?v' = "fold move_down ?A ?p"
  let ?n = "next_line v"
  have cp: "consistent ?p" by (rule before_forEach_consistent [OF c])
  then have dA: "distinct ?A" by (simp add: consistent_def)
  obtain rest where A: "?A = ?n # rest"
  proof (cases "maxLines < Suc (length (lines v))")
    case True
    then have "lines v \<noteq> []" by (auto simp: maxLines_def)
    then have "butlast (?n # lines v) = ?n # butlast (lines v)" by simp
    with True that show ?thesis by (simp add: before_forEach_lines)
  next
    case False
    with that show ?thesis by (simp add: before_forEach_lines)
  qed
  have l: "lines ?v' = filter (\<lambda>l. \<not> (l \<in> set ?A \<and> position_y ?p l - spacing < - spacing)) ?A"
    by (rule fold_move_down_lines [OF dA])
  have y': "\<And>r. position_y ?v' r = (if r \<in> set ?A then position_y ?p r - spacing else position_y ?p r)"
    by (rule fold_move_down_position_y [OF dA])
  have keep: "\<not> (position_y ?p ?n - spacing < - spacing)" by simp
  have "filter (\<lambda>l. \<not> (l \<in> set ?A \<and> position_y ?p l - spacing < - spacing)) ?A =
          ?n # filter (\<lambda>l. \<not> (l \<in> set ?A \<and> position_y ?p l - spacing < - spacing)) rest"
    using keep by (simp add: A)
  with l have "\<exists>tl. lines ?v' = ?n # tl" by simp
  then have hd: "lines ?v' \<noteq> [] \<and> hd (lines ?v') = ?n" by auto
  have "?n \<in> set ?A" by (simp add: A)
  then have yn: "position_y ?v' ?n = real (clientHeight v) - spacing"
    by (simp add: y')
  have low: "\<forall>l\<in>set (lines ?v'). - spacing \<le> position_y ?v' l"
  proof
    fix r assume "r \<in> set (lines ?v')"
    then have "r \<in> set ?A" "\<not> (position_y ?p r - spacing < - spacing)"
      unfolding l by auto
    then show "- spacing \<le> position_y ?v' r" by (simp add: y')
  qed
  have "addData g d v = Inr ?v'" by (rule addData_eq [OF geom])
  moreover have "consistent ?v'" by (rule fold_move_down_consistent [OF cp])
  ultimately show ?thesis using hd yn low by simp
qed

lemma consistent_scene: "consistent v \<Longrightarrow> Line l \<in> set (scene v) \<longleftrightarrow> l \<in> set (lines v)"
  by (auto simp: consistent_def)

lemma filter_eq_take:
  "(\<And>j. j < length xs \<Longrightarrow> P (xs ! j) \<longleftrightarrow> j < k) \<Longrightarrow> filter P xs = take k xs"
proof (induction xs arbitrary: k)
  case Nil
  then show ?case by simp
next
  case (Cons x xs)
  show ?case
  proof (cases k)
    case 0
    have "\<And>y. y \<in> set (x # xs) \<Longrightarrow> \<not> P y"
    proof -
      fix y assume "y \<in> set (x # xs)"
      then obtain j where "j < length (x # xs)" "(x # xs) ! j = y"
        by (metis in_set_conv_nth)
      with Cons.prems [of j] 0 show "\<not> P y" by auto
    qed
    then have "filter P (x # xs) = []" by (simp add: filter_empty_conv)
    with 0 show ?thesis by simp
  next
    case (Suc k')
    have px: "P x" using Cons.prems [of 0] Suc by simp
    have "\<And>j. j < length xs \<Longrightarrow> P (xs ! j) \<longleftrightarrow> j < k'"
      using Cons.prems [of "Suc _"] Suc by simp
    then have "filter P xs = take k' xs" by (rule Cons.IH)
    with px Suc show ?thesis by simp
  qed
qed

lemma addData_step:
  assumes c: "consistent v" and st: "stacked v" and len: "length (lines v) \<le> maxLines"
    and geom: "createGeometry g d v = Inr geom"
  shows "\<exists>v'. addData g d v = Inr v' \<and> consistent v' \<and> stacked v' \<and>
           clientHeight v' = clientHeight v \<and> clientWidth v' = clientWidth v \<and>
           next_line v' = Suc (next_line v) \<and>
           line_geometry v' = (line_geometry v)(next_line v := geom) \<and>
           lines v' = take (min maxLines (Suc (clientHeight v))) (next_line v # lines v)"
proof -
  let ?p = "before_forEach geom v"
  let ?A = "lines ?p"
  let ?v' = "fold move_down ?A ?p"
  let ?n = "next_line v"
  let ?H = "clientHeight v"
  have cp: "consistent ?p" by (rule before_forEach_consistent [OF c])
  then have dA: "distinct ?A" by (simp add: consistent_def)
  from c have fresh: "?n \<notin> set (lines v)" by (auto simp: consistent_def list_all_iff)
  have A: "?A = take maxLines (?n # lines v)" by (rule before_forEach_take [OF len])
  have yA: "\<And>j. j < length ?A \<Longrightarrow> position_y ?p (?A ! j) = real ?H - real j"
  proof -
    fix j assume j: "j < length ?A"
    then have jl: "j < length (?n # lines v)" and nth: "?A ! j = (?n # lines v) ! j"
      by (simp_all add: A)
    show "position_y ?p (?A ! j) = real ?H - real j"
    proof (cases j)
      case 0
      with nth show ?thesis by simp
    next
      case (Suc i)
      with jl have i: "i < length (lines v)" by simp
      then have "lines v ! i \<noteq> ?n" using fresh by (metis nth_mem)
      moreover have "position_y v (lines v ! i) = real ?H - real (Suc i)"
        using st i by (simp add: stacked_def)
      ultimately show ?thesis using nth Suc by simp
    qed
  qed
  have l: "lines ?v' = filter (\<lambda>l. \<not> (l \<in> set ?A \<and> position_y ?p l - spacing < - spacing)) ?A"
    by (rule fold_move_down_lines [OF dA])
  have f: "filter (\<lambda>l. \<not> (l \<in> set ?A \<and> position_y ?p l - spacing < - spacing)) ?A = take (Suc ?H) ?A"
  proof (rule filter_eq_take)
    fix j assume j: "j < length ?A"
    then have "?A ! j \<in> set ?A" by simp
    then show "(\<not> (?A ! j \<in> set ?A \<and> position_y ?p (?A ! j) - spacing < - spacing)) \<longleftrightarrow> j < Suc ?H"
      using yA [OF j] by (auto simp: spacing_def)
  qed
  have l2: "lines ?v' = take (Suc ?H) ?A" using l f by simp
  then have l': "lines ?v' = take (min maxLines (Suc ?H)) (?n # lines v)"
    by (simp add: A min.commute)
  have y': "\<And>r. position_y ?v' r = (if r \<in> set ?A then position_y ?p r - spacing else position_y ?p r)"
    by (rule fold_move_down_position_y [OF dA])
  have st': "stacked ?v'"
    unfolding stacked_def
  proof (intro allI impI)
    fix j assume j: "j < length (lines ?v')"
    then have jA: "j < length ?A" and nth: "lines ?v' ! j = ?A ! j"
      by (simp_all add: l2)
    then have "?A ! j \<in> set ?A" by simp
    then have "position_y ?v' (?A ! j) = position_y ?p (?A ! j) - spacing" by (simp add: y')
    also have "\<dots> = real ?H - real (Suc j)" using yA [OF jA] by (simp add: spacing_def)
    finally show "position_y ?v' (lines ?v' ! j) = real (clientHeight ?v') - real (Suc j)"
      by (simp add: nth)
  qed
  have "addData g d v = Inr ?v'" by (rule addData_eq [OF geom])
  moreover have "consistent ?v'" by (rule fold_move_down_consistent [OF cp])
  ultimately show ?thesis using st' l' by simp
qed


section \<open>Runs\<close>

lemma new_consistent: "consistent (new_WaterfallVisualizer w h)"
  by (simp add: consistent_def new_WaterfallVisualizer_def)

lemma new_stacked: "stacked (new_WaterfallVisualizer w h)"
  by (simp add: stacked_def new_WaterfallVisualizer_def)

lemma new_fields [simp]:
  "clientWidth (new_WaterfallVisualizer w h) = w"
  "clientHeight (new_WaterfallVisualizer w h) = h"
  "next_line (new_WaterfallVisualizer w h) = 0"
  "lines (new_WaterfallVisualizer w h) = []"
  by (simp_all add: new_WaterfallVisualizer_def)

lemma container_resized_fields [simp]:
  "lines (container_resized w h v) = lines v"
  "scene (container_resized w h v) = scene v"
  "next_line (container_resized w h v) = next_line v"
  "line_geometry (container_resized w h v) = line_geometry v"
  "position_y (container_resized w h v) = position_y v"
  "clientWidth (container_resized w h v) = w"
  "clientHeight (container_resized w h v) = h"
  by (simp_all add: container_resized_def onResize_def)

lemma container_resized_consistent: "consistent v \<Longrightarrow> consistent (container_resized w h v)"
  by (simp add: consistent_def container_resized_def onResize_def)

lemma run_append:
  "run g (cs @ ds) v = (case run g cs v of Inl e \<Rightarrow> Inl e | Inr v' \<Rightarrow> run g ds v')"
  by (induction g cs v rule: run.induct) (auto split: sum.splits)

lemma run_consistent:
  "consistent v \<Longrightarrow> run g cs v = Inr v' \<Longrightarrow> consistent v'"
proof (induction g cs v rule: run.induct)
  case (1 g v)
  then show ?case by simp
next
  case (2 g d cs v)
  then show ?case by (auto split: sum.splits dest: addData_consistent)
next
  case (3 g w h cs v)
  then show ?case by (simp add: container_resized_consistent)
qed

lemma run_bounded:
  "length (lines v) \<le> maxLines \<Longrightarrow> \<forall>c\<in>set cs. valid_call c \<Longrightarrow>
   \<exists>v'. run g cs v = Inr v' \<and> length (lines v') \<le> maxLines"
proof (induction g cs v rule: run.induct)
  case (1 g v)
  then show ?case by simp
next
  case (2 g d cs v)
  then have "waterfall d \<noteq> None" by simp
  then obtain v1 where v1: "addData g d v = Inr v1" using addData_valid by blast
  have "length (lines v1) \<le> maxLines" by (rule addData_length [OF "2.prems"(1) v1])
  with "2.IH" [OF v1] "2.prems"(2) show ?case by (simp add: v1)
next
  case (3 g w h cs v)
  then show ?case by simp
qed

lemma take_Cons_take: "take k (x # take k xs) = take k (x # xs)"
  by (cases k) simp_all

lemma run_frames:
  assumes "\<forall>f\<in>set fs. waterfall f \<noteq> None"
  shows "\<exists>v. run g (map AddData fs) (new_WaterfallVisualizer w h) = Inr v \<and>
           consistent v \<and> stacked v \<and> clientHeight v = h \<and> clientWidth v = w \<and>
           next_line v = length fs \<and>
           lines v = take (min maxLines (Suc h)) (rev [0 ..< length fs]) \<and>
           (fs \<noteq> [] \<longrightarrow>
              createGeometry g (last fs) (new_WaterfallVisualizer w h) =
                Inr (line_geometry v (length fs - 1)))"
  using assms
proof (induction fs rule: rev_induct)
  case Nil
  then show ?case by (simp add: new_consistent new_stacked)
next
  case (snoc f fs)
  from snoc obtain v where v: "run g (map AddData fs) (new_WaterfallVisualizer w h) = Inr v"
    "consistent v" "stacked v" "clientHeight v = h" "clientWidth v = w" "next_line v = length fs"
    "lines v = take (min maxLines (Suc h)) (rev [0 ..< length fs])"
    by auto
  from snoc.prems obtain ws where "waterfall f = Some ws" by auto
  then obtain geom where geom: "createGeometry g f v = Inr geom"
    using createGeometry_Inr by blast
  have len: "length (lines v) \<le> maxLines" by (simp add: v(7))
  from addData_step [OF v(2) v(3) len geom] obtain v' where v': "addData g f v = Inr v'"
    "consistent v'" "stacked v'" "clientHeight v' = clientHeight v" "clientWidth v' = clientWidth v"
    "next_line v' = Suc (next_line v)" "line_geometry v' = (line_geometry v)(next_line v := geom)"
    "lines v' = take (min maxLines (Suc (clientHeight v))) (next_line v # lines v)"
    by blast
  have r: "run g (map AddData (fs @ [f])) (new_WaterfallVisualizer w h) = Inr v'"
    by (simp add: run_append v(1) v'(1))
  have l: "lines v' = take (min maxLines (Suc h)) (rev [0 ..< length (fs @ [f])])"
    by (simp add: v'(8) v(4) v(6) v(7) take_Cons_take)
  have "createGeometry g f (new_WaterfallVisualizer w h) = createGeometry g f v"
    by (rule createGeometry_width) (simp add: v(5))
  then have gm: "createGeometry g (last (fs @ [f])) (new_WaterfallVisualizer w h) =
            Inr (line_geometry v' (length (fs @ [f]) - 1))"
    by (simp add: geom v'(7) v(6))
  show ?case
    using r v'(2) v'(3) l gm by (simp add: v'(4) v'(5) v'(6) v(4) v(5) v(6))
qed

lemma run_frames_newest:
  assumes "\<forall>f\<in>set fs. waterfall f \<noteq> None" "fs \<noteq> []"
  shows "\<exists>v. run g (map AddData fs) (new_WaterfallVisualizer w h) = Inr v \<and>
           length (lines v) = min (length fs) (min maxLines (Suc h)) \<and>
           hd (lines v) = length fs - 1 \<and>
           position_y v (hd (lines v)) = real h - spacing \<and>
           createGeometry g (last fs) (new_WaterfallVisualizer w h) =
             Inr (line_geometry v (hd (lines v)))"
proof -
  from run_frames [OF assms(1), of g w h] obtain v where
    v: "run g (map AddData fs) (new_WaterfallVisualizer w h) = Inr v" "stacked v" "clientHeight v = h"
    "lines v = take (min maxLines (Suc h)) (rev [0 ..< length fs])"
    "fs \<noteq> [] \<longrightarrow> createGeometry g (last fs) (new_WaterfallVisualizer w h) =
                Inr (line_geometry v (length fs - 1))"
    by blast
  obtain m where e: "length fs = Suc m" using assms(2) by (cases fs) auto
  have up: "rev [0 ..< length fs] = m # rev [0 ..< m]"
    unfolding e upt_Suc by simp
  have k: "min maxLines (Suc h) = Suc (min 4999 h)" by (simp add: maxLines_def)
  have l: "lines v = m # take (min 4999 h) (rev [0 ..< m])"
    unfolding v(4) up k by simp
  have len: "length (lines v) = min (length fs) (min maxLines (Suc h))"
    unfolding v(4) by (simp add: min.commute)
  have h: "hd (lines v) = length fs - 1" by (simp add: l e)
  have "0 < length (lines v)" by (simp add: l)
  with v(2) have "position_y v (lines v ! 0) = real (clientHeight v) - real (Suc 0)"
    unfolding stacked_def by blast
  then have y: "position_y v (hd (lines v)) = real h - spacing"
    by (simp add: l v(3) spacing_def)
  have "createGeometry g (last fs) (new_WaterfallVisualizer w h) = Inr (line_geometry v (hd (lines v)))"
    using v(5) assms(2) by (simp add: h)
  with v(1) len h y show ?thesis by blast
qed

lemmas eval_defs = addData_def createGeometry_def Let_def normalizeData_length
      new_WaterfallVisualizer_def move_down_def pop_oldest_def maxLines_def spacing_def


section \<open>The history\<close>

text \<open>
  C2. From a new visualizer, after every call of a run of valid frames (and of resizes of
  the container), \<^verbatim>\<open>addData\<close> has returned normally and the history holds at most
  \<open>maxLines\<close> rows.
\<close>

theorem history_bounded:
  "\<forall>c\<in>set calls. valid_call c \<Longrightarrow>
   \<exists>v. run g (take k calls) (new_WaterfallVisualizer w h) = Inr v \<and> length (lines v) \<le> maxLines"
proof -
  assume "\<forall>c\<in>set calls. valid_call c"
  then have "\<forall>c\<in>set (take k calls). valid_call c" by (auto dest: in_set_takeD)
  then show ?thesis by (intro run_bounded) simp
qed

theorem history_bounded_witness:
  "list_all valid_call example_calls \<and>
   (\<exists>v. run stop_hsl (take 3 example_calls) (new_WaterfallVisualizer 800 600) = Inr v \<and>
        length (lines v) \<le> maxLines) \<and>
   lines (projr (run stop_hsl (take 3 example_calls) (new_WaterfallVisualizer 800 600))) = [1, 0]"
proof -
  have a: "\<forall>c\<in>set example_calls. valid_call c"
    by (simp add: example_calls_def example_frame_def single_frame_def)
  have b: "lines (projr (run stop_hsl (take 3 example_calls) (new_WaterfallVisualizer 800 600))) = [1, 0]"
    by (simp add: example_calls_def example_frame_def single_frame_def eval_defs
        container_resized_def onResize_def)
  from history_bounded [OF a, of stop_hsl 3 800 600] a b show ?thesis
    by (simp add: list_all_iff)
qed

text \<open>
  C7. In a state reached by a run, after \<^verbatim>\<open>addData\<close> no row of the history is lower than
  \<open>- spacing\<close>, and a line that is lower than \<open>- spacing\<close> is neither in the history nor in
  the scene.
\<close>

theorem bottom_rows_evicted:
  assumes "run g calls (new_WaterfallVisualizer w h) = Inr v" "addData g d v = Inr v'"
  shows "(\<forall>l\<in>set (lines v'). - spacing \<le> position_y v' l) \<and>
         (\<forall>l. position_y v' l < - spacing \<longrightarrow> l \<notin> set (lines v') \<and> Line l \<notin> set (scene v'))"
proof -
  have c: "consistent v" by (rule run_consistent [OF new_consistent assms(1)])
  from assms(2) obtain geom where geom: "createGeometry g d v = Inr geom"
    by (auto simp: addData_def split: sum.splits)
  from addData_newest [OF c geom] assms(2)
  have c': "consistent v'" and low: "\<forall>l\<in>set (lines v'). - spacing \<le> position_y v' l"
    by auto
  show ?thesis
  proof (intro conjI allI impI)
    show "\<forall>l\<in>set (lines v'). - spacing \<le> position_y v' l" by (rule low)
  next
    fix l assume "position_y v' l < - spacing"
    with low show "l \<notin> set (lines v')" by fastforce
    then show "Line l \<notin> set (scene v')" by (simp add: consistent_scene [OF c'])
  qed
qed

theorem bottom_rows_evicted_witness:
  "run stop_hsl [AddData single_frame] (new_WaterfallVisualizer 2 0) = Inr one_row \<and>
   addData stop_hsl single_frame one_row = Inr two_rows \<and>
   lines one_row = [0] \<and> lines two_rows = [1] \<and> scene two_rows = [AmbientLight, Line 1] \<and>
   position_y two_rows 0 = - 2 \<and> position_y two_rows 1 = - 1 \<and>
   list_all (\<lambda>l. - spacing \<le> position_y two_rows l) (lines two_rows) \<and>
   position_y two_rows 0 < - spacing \<and>
   0 \<notin> set (lines two_rows) \<and> Line 0 \<notin> set (scene two_rows)"
proof -
  have r1: "run stop_hsl [AddData single_frame] (new_WaterfallVisualizer 2 0) = Inr one_row"
    by (simp add: one_row_def single_frame_def eval_defs)
  have r2: "addData stop_hsl single_frame one_row = Inr two_rows"
    by (simp add: two_rows_def one_row_def single_frame_def eval_defs)
  have e: "lines one_row = [0]" "lines two_rows = [1]" "scene two_rows = [AmbientLight, Line 1]"
    "position_y two_rows 0 = - 2" "position_y two_rows 1 = - 1"
    by (simp_all add: two_rows_def one_row_def single_frame_def eval_defs)
  have y: "position_y two_rows 0 < - spacing" by (simp add: e spacing_def)
  from bottom_rows_evicted [OF r1 r2] r1 r2 e y show ?thesis
    by (simp add: list_all_iff)
qed

text \<open>
  C8, for a frame of at least two samples. In a state reached by a run, once the container
  has the width \<open>W2\<close>, such a frame is added as the newest row, with its \<open>x\<close> coordinates
  evenly spaced from 0 to \<open>W2\<close>; the geometry of every row that was in the history is the
  one it had.
\<close>

theorem resize_keeps_rows:
  assumes "run g calls (new_WaterfallVisualizer w h) = Inr v"
    "waterfall d = Some ws" "2 \<le> length ws"
  shows "\<exists>v'. addData g d (container_resized W2 H2 v) = Inr v' \<and>
           hd (lines v') = next_line v \<and>
           map fst (position_attr (line_geometry v' (next_line v))) =
             map (\<lambda>i. Fin (real i * (real W2 / (real (length ws) - 1)))) [0 ..< length ws] \<and>
           fst (hd (position_attr (line_geometry v' (next_line v)))) = Fin 0 \<and>
           fst (last (position_attr (line_geometry v' (next_line v)))) = Fin (real W2) \<and>
           (\<forall>i<length ws. 0 \<le> real i * (real W2 / (real (length ws) - 1)) \<and>
                          real i * (real W2 / (real (length ws) - 1)) \<le> real W2) \<and>
           (\<forall>l\<in>set (lines v). line_geometry v' l = line_geometry v l)"
proof -
  let ?r = "container_resized W2 H2 v"
  let ?n = "next_line v"
  let ?xs = "map (\<lambda>i. Fin (real i * (real W2 / (real (length ws) - 1)))) [0 ..< length ws]"
  have c: "consistent v" by (rule run_consistent [OF new_consistent assms(1)])
  then have cr: "consistent ?r" by (rule container_resized_consistent)
  obtain geom where geom: "createGeometry g d ?r = Inr geom"
    using createGeometry_Inr [OF assms(2)] by blast
  from addData_newest [OF cr geom] obtain v' where v': "addData g d ?r = Inr v'"
    "hd (lines v') = ?n" "line_geometry v' = (line_geometry v)(?n := geom)"
    by auto
  have x: "map fst (position_attr geom) = ?xs"
    using createGeometry_x_wide [OF assms(2) assms(3) geom] by simp
  obtain m where m: "length ws = Suc (Suc m)" using assms(3)
    by (metis Suc_le_D numeral_2_eq_2 Suc_le_mono le0 add_2_eq_Suc le_Suc_ex)
  have ne: "position_attr geom \<noteq> []" using x m by auto
  have "fst (hd (position_attr geom)) = hd (map fst (position_attr geom))"
    using ne by (simp add: hd_map)
  also have "\<dots> = Fin 0" unfolding x m by (simp add: upt_rec)
  finally have first: "fst (hd (position_attr geom)) = Fin 0" .
  have "fst (last (position_attr geom)) = last (map fst (position_attr geom))"
    using ne by (simp add: last_map)
  also have "\<dots> = Fin (real W2)" unfolding x m by simp
  finally have lst: "fst (last (position_attr geom)) = Fin (real W2)" .
  have span: "\<forall>i<length ws. 0 \<le> real i * (real W2 / (real (length ws) - 1)) \<and>
                          real i * (real W2 / (real (length ws) - 1)) \<le> real W2"
    using x_in_span [OF assms(3)] by blast
  have old: "\<forall>l\<in>set (lines v). line_geometry v' l = line_geometry v l"
    using c by (auto simp: v'(3) consistent_def list_all_iff)
  show ?thesis using v'(1) v'(2) x first lst span old by (simp add: v'(3))
qed

theorem resize_keeps_rows_witness:
  "run stop_hsl [AddData example_frame] (new_WaterfallVisualizer 800 600) = Inr narrow_row \<and>
   waterfall example_frame = Some [Fin 1, Fin 3, Fin 2] \<and>
   addData stop_hsl example_frame (container_resized 1600 600 narrow_row) = Inr wide_row \<and>
   lines narrow_row = [0] \<and> lines wide_row = [1, 0] \<and>
   map fst (position_attr (line_geometry narrow_row 0)) = [Fin 0, Fin 400, Fin 800] \<and>
   map fst (position_attr (line_geometry wide_row 1)) = [Fin 0, Fin 800, Fin 1600] \<and>
   line_geometry wide_row 0 = line_geometry narrow_row 0"
proof -
  have r1: "run stop_hsl [AddData example_frame] (new_WaterfallVisualizer 800 600) = Inr narrow_row"
    by (simp add: narrow_row_def example_frame_def eval_defs)
  have w: "waterfall example_frame = Some [Fin 1, Fin 3, Fin 2]"
    by (simp add: example_frame_def)
  have n: "(2::nat) \<le> length [Fin 1, Fin 3, Fin 2]" by simp
  have e: "lines narrow_row = [0]" "next_line narrow_row = 1"
    by (simp_all add: narrow_row_def example_frame_def eval_defs)
  have x0: "map fst (position_attr (line_geometry narrow_row 0)) = [Fin 0, Fin 400, Fin 800]"
    by (simp add: narrow_row_def example_frame_def eval_defs upt_rec_numeral)
  from resize_keeps_rows [OF r1 w n, of 1600 600] obtain v' where
    v': "addData stop_hsl example_frame (container_resized 1600 600 narrow_row) = Inr v'"
    "map fst (position_attr (line_geometry v' (next_line narrow_row))) =
       map (\<lambda>i. Fin (real i * (real 1600 / (real (length [Fin 1, Fin 3, Fin 2]) - 1))))
         [0 ..< length [Fin 1, Fin 3, Fin 2]]"
    "\<forall>l\<in>set (lines narrow_row). line_geometry v' l = line_geometry narrow_row l"
    by blast
  have vw: "v' = wide_row" by (simp add: wide_row_def v'(1))
  have x1: "map fst (position_attr (line_geometry wide_row 1)) = [Fin 0, Fin 800, Fin 1600]"
    using v'(2) by (simp add: vw e upt_rec_numeral)
  have old: "line_geometry wide_row 0 = line_geometry narrow_row 0"
    using v'(3) by (simp add: vw e)
  have l: "lines wide_row = [1, 0]"
    by (simp add: wide_row_def narrow_row_def example_frame_def eval_defs
        container_resized_def onResize_def)
  from r1 w v'(1) e(1) l x0 x1 old show ?thesis by (simp add: vw)
qed

text \<open>
  C8 as it is written fails on a frame of one sample: added after the container went from
  800 to 1600 wide, its row is the newest of the history and its only \<open>x\<close> is \<^verbatim>\<open>NaN\<close>, so
  it does not span the width.
\<close>

theorem resize_single_sample_counterexample:
  "lines narrow_row = [0] \<and>
   \<not> isl (addData stop_hsl single_frame (container_resized 1600 600 narrow_row)) \<and>
   lines nan_row = [1, 0] \<and>
   map fst (position_attr (line_geometry nan_row 1)) = [NaN]"
  by (simp add: nan_row_def narrow_row_def example_frame_def single_frame_def eval_defs
      container_resized_def onResize_def)

text \<open>
  C1, as the program behaves. In a state reached by a run, a frame of fewer than two
  samples is not rejected: \<^verbatim>\<open>addData\<close> returns normally, the new row is the head of the
  history and is in the scene, and each \<open>x\<close> coordinate of its geometry is \<^verbatim>\<open>NaN\<close> (there is
  none for an empty frame).
\<close>

theorem short_frame_accepted:
  assumes "run g calls (new_WaterfallVisualizer w h) = Inr v"
    "waterfall d = Some ws" "length ws < 2"
  shows "\<exists>v'. addData g d v = Inr v' \<and>
           lines v' \<noteq> [] \<and> hd (lines v') = next_line v \<and>
           next_line v \<notin> set (lines v) \<and>
           Line (next_line v) \<in> set (scene v') \<and>
           map fst (position_attr (line_geometry v' (next_line v))) = replicate (length ws) NaN"
proof -
  let ?n = "next_line v"
  have c: "consistent v" by (rule run_consistent [OF new_consistent assms(1)])
  obtain geom where geom: "createGeometry g d v = Inr geom"
    using createGeometry_Inr [OF assms(2)] by blast
  from addData_newest [OF c geom] obtain v' where v': "addData g d v = Inr v'" "consistent v'"
    "lines v' \<noteq> []" "hd (lines v') = ?n" "line_geometry v' = (line_geometry v)(?n := geom)"
    by auto
  have "?n \<in> set (lines v')" using v'(3) v'(4) hd_in_set by metis
  then have sc: "Line ?n \<in> set (scene v')" by (simp add: consistent_scene [OF v'(2)])
  have fresh: "?n \<notin> set (lines v)" using c by (auto simp: consistent_def list_all_iff)
  have x: "map fst (position_attr geom) = replicate (length ws) NaN"
    by (rule createGeometry_x_short [OF assms(2) assms(3) geom])
  show ?thesis using v'(1) v'(3) v'(4) sc fresh x by (simp add: v'(5))
qed

theorem short_frame_accepted_witness:
  "run stop_hsl [] (new_WaterfallVisualizer 800 600) = Inr (new_WaterfallVisualizer 800 600) \<and>
   waterfall single_frame = Some [Fin 5] \<and> length [Fin 5] < (2::nat) \<and>
   (\<exists>v'. addData stop_hsl single_frame (new_WaterfallVisualizer 800 600) = Inr v' \<and>
      lines v' = [0] \<and> scene v' = [AmbientLight, Line 0] \<and>
      map fst (position_attr (line_geometry v' 0)) = [NaN])"
proof -
  have r: "run stop_hsl [] (new_WaterfallVisualizer 800 600) = Inr (new_WaterfallVisualizer 800 600)"
    by simp
  have w: "waterfall single_frame = Some [Fin 5]" by (simp add: single_frame_def)
  have n: "length [Fin 5] < (2::nat)" by simp
  from short_frame_accepted [OF r w n] obtain v' where
    v': "addData stop_hsl single_frame (new_WaterfallVisualizer 800 600) = Inr v'"
    "map fst (position_attr (line_geometry v' (next_line (new_WaterfallVisualizer 800 600)))) =
       replicate (length [Fin 5]) NaN"
    by blast
  have e: "lines (projr (addData stop_hsl single_frame (new_WaterfallVisualizer 800 600))) = [0]"
    "scene (projr (addData stop_hsl single_frame (new_WaterfallVisualizer 800 600))) = [AmbientLight, Line 0]"
    by (simp_all add: single_frame_def eval_defs)
  from v' e r w show ?thesis by simp
qed

text \<open>
  C1 as it is written fails on the empty frame: \<^verbatim>\<open>addData\<close> returns normally and the history
  of a new visualizer, empty before, holds one row.
\<close>

theorem short_frame_counterexample:
  "\<not> isl (addData stop_hsl empty_frame (new_WaterfallVisualizer 800 600)) \<and>
   lines (new_WaterfallVisualizer 800 600) = [] \<and>
   lines (projr (addData stop_hsl empty_frame (new_WaterfallVisualizer 800 600))) = [0]"
  by (simp add: addData_def createGeometry_def empty_frame_def Let_def normalizeData_length
      new_WaterfallVisualizer_def move_down_def pop_oldest_def maxLines_def spacing_def)

text \<open>
  C3, as the program behaves. From a new visualizer on a container of height \<open>h\<close> that
  does not change, 5001 valid frames leave \<open>min 5000 (h + 1)\<close> rows; the row of the last
  frame is the head of the history, one step below the top of the container.
\<close>

theorem feed_5001:
  assumes "length fs = 5001" "\<forall>f\<in>set fs. waterfall f \<noteq> None"
  shows "\<exists>v. run g (map AddData fs) (new_WaterfallVisualizer w h) = Inr v \<and>
           length (lines v) = min 5000 (Suc h) \<and>
           hd (lines v) = 5000 \<and>
           position_y v (hd (lines v)) = real h - spacing \<and>
           createGeometry g (last fs) (new_WaterfallVisualizer w h) =
             Inr (line_geometry v (hd (lines v)))"
proof -
  have "fs \<noteq> []" using assms(1) by auto
  from run_frames_newest [OF assms(2) this, of g w h]
  show ?thesis by (simp add: assms(1) maxLines_def)
qed

theorem feed_5001_witness:
  "length (replicate 5001 ramp_frame) = 5001 \<and>
   list_all (\<lambda>f. waterfall f \<noteq> None) (replicate 5001 ramp_frame) \<and>
   (\<exists>v. run stop_hsl (map AddData (replicate 5001 ramp_frame)) (new_WaterfallVisualizer 800 4999) = Inr v \<and>
        length (lines v) = 5000 \<and> hd (lines v) = 5000 \<and> position_y v (hd (lines v)) = 4998)"
proof -
  have a: "length (replicate 5001 ramp_frame) = 5001" by simp
  have b: "\<forall>f\<in>set (replicate 5001 ramp_frame). waterfall f \<noteq> None"
    by (simp add: ramp_frame_def)
  from feed_5001 [OF a b, of stop_hsl 800 4999] a b
  show ?thesis by (auto simp: spacing_def list_all_iff)
qed

text \<open>
  C3 as it is written fails on a container 600 high: after 5001 frames of 100 samples the
  history holds 601 rows, and the newest is at 599, one step below the top.
\<close>

theorem feed_5001_counterexample:
  "\<not> isl (run stop_hsl (map AddData (replicate 5001 ramp_frame)) (new_WaterfallVisualizer 800 600)) \<and>
   length (lines (projr (run stop_hsl (map AddData (replicate 5001 ramp_frame))
                            (new_WaterfallVisualizer 800 600)))) = 601 \<and>
   position_y (projr (run stop_hsl (map AddData (replicate 5001 ramp_frame))
                            (new_WaterfallVisualizer 800 600)))
     (hd (lines (projr (run stop_hsl (map AddData (replicate 5001 ramp_frame))
                            (new_WaterfallVisualizer 800 600))))) = 599"
proof -
  have b: "\<forall>f\<in>set (replicate 5001 ramp_frame). waterfall f \<noteq> None"
    by (simp add: ramp_frame_def)
  have c: "replicate 5001 ramp_frame \<noteq> []" by simp
  from run_frames_newest [OF b c, of stop_hsl 800 600] obtain v where
    "run stop_hsl (map AddData (replicate 5001 ramp_frame)) (new_WaterfallVisualizer 800 600) = Inr v"
    "length (lines v) = 601" "position_y v (hd (lines v)) = 599"
    by (auto simp: maxLines_def spacing_def)
  then show ?thesis by simp
qed

end
